theory Spec2Isabelle
  imports Main "HOL-Library.Char_ord" "HOL-Library.List_Lexorder"
begin

section \<open>mssh: host configuration, target resolution and command derivation\<close>

text \<open>
  A shallow embedding of \<^verbatim>\<open>main.go\<close>. Go strings are byte sequences, modelled as
  \<^typ>\<open>string\<close> (lists of 8-bit characters); \<^verbatim>\<open>sort.Strings\<close> orders them bytewise,
  which is the lexicographic order on \<^typ>\<open>char list\<close>. A panic or a returned error
  is a value \<open>Inl\<close> of the result type.
\<close>

subsection \<open>Failures\<close>

datatype panic =
    NilDereference            \<comment> \<open>\<^verbatim>\<open>usr.HomeDir\<close> on a nil \<^verbatim>\<open>*user.User\<close>\<close>
  | SliceOutOfRange           \<comment> \<open>\<^verbatim>\<open>path[:2]\<close> on a string shorter than two bytes\<close>
  | RegexpMustCompile string  \<comment> \<open>\<^verbatim>\<open>regexp.MustCompile\<close> on a pattern that does not compile\<close>
  | IndexOutOfRange           \<comment> \<open>\<^verbatim>\<open>cmds[0]\<close> on an empty slice\<close>
  | AssignToNilMap            \<comment> \<open>\<^verbatim>\<open>c.Hosts[k] = v\<close> on a nil map\<close>

datatype fault =
    Panic panic               \<comment> \<open>the goroutine panics; nothing is returned\<close>
  | ReadFileError string      \<comment> \<open>the \<^verbatim>\<open>error\<close> of \<^verbatim>\<open>ioutil.ReadFile\<close>, returned\<close>
  | UnmarshalError string     \<comment> \<open>the \<^verbatim>\<open>error\<close> of \<^verbatim>\<open>yaml.Unmarshal\<close>, returned\<close>
  | OutOfFuel                 \<comment> \<open>the recursion bound of the model is used up\<close>

subsection \<open>The pieces of package \<^verbatim>\<open>strings\<close> the program calls\<close>

definition HasPrefix :: "string \<Rightarrow> string \<Rightarrow> bool" where
  "HasPrefix s pre = (take (length pre) s = pre)"

text \<open>
  \<^verbatim>\<open>strings.Split(s, sep)\<close> for a non-empty separator: \<open>s\<close> is cut at every
  occurrence of \<open>sep\<close>, scanning from the left; two adjacent separators give an empty
  piece and the result always has at least one piece. (With an empty separator Go
  explodes the string; the program never does that.)
\<close>

fun Split_from :: "string \<Rightarrow> string \<Rightarrow> string \<Rightarrow> string list" where
  "Split_from sep piece [] = [piece]"
| "Split_from sep piece (c # cs) =
     (if HasPrefix (c # cs) sep
      then piece # Split_from sep [] (drop (length sep - 1) cs)
      else Split_from sep (piece @ [c]) cs)"

definition Split :: "string \<Rightarrow> string \<Rightarrow> string list" where
  "Split s sep = (if sep = [] then map (\<lambda>c. [c]) s else Split_from sep [] s)"

fun Join :: "string list \<Rightarrow> string \<Rightarrow> string" where
  "Join [] sep = []"
| "Join [x] sep = x"
| "Join (x # y # ys) sep = x @ sep @ Join (y # ys) sep"

text \<open>
  \<^verbatim>\<open>strings.Replace(s, old, new, 1)\<close> for a non-empty \<open>old\<close>: the first occurrence
  of \<open>old\<close> is replaced, the rest of the string is left alone.
\<close>

fun Replace1 :: "string \<Rightarrow> string \<Rightarrow> string \<Rightarrow> string" where
  "Replace1 [] old new = []"
| "Replace1 (c # cs) old new =
     (if HasPrefix (c # cs) old then new @ drop (length old) (c # cs)
      else c # Replace1 cs old new)"

subsection \<open>Regular expressions\<close>

text \<open>
  Package \<^verbatim>\<open>regexp\<close> is not part of the repository. It is a parameter of the model:
  an engine maps a pattern to \<open>None\<close> when \<^verbatim>\<open>regexp.MustCompile\<close> panics on it, and to
  \<open>Some m\<close> otherwise, where \<open>m s\<close> is what \<^verbatim>\<open>MatchString(s)\<close> returns.
\<close>

type_synonym regexp_engine = "string \<Rightarrow> (string \<Rightarrow> bool) option"

subsection \<open>Target resolution\<close>

text \<open>
  \<^verbatim>\<open>filter\<close>: the pattern is compiled first, whatever the mode; then every element
  that starts with an underscore is skipped and the others are kept when they equal the
  pattern (\<open>re\<close> false) or when the compiled pattern matches them (\<open>re\<close> true).
\<close>

definition filter_go :: "regexp_engine \<Rightarrow> string list \<Rightarrow> string \<Rightarrow> bool \<Rightarrow> fault + string list" where
  "filter_go rx elems f re =
     (case rx f of
        None \<Rightarrow> Inl (Panic (RegexpMustCompile f))
      | Some r \<Rightarrow>
          Inr (filter (\<lambda>k. \<not> HasPrefix k ''_'' \<and> ((\<not> re \<and> f = k) \<or> (re \<and> r k))) elems))"

text \<open>
  The loop of \<^verbatim>\<open>getTargets\<close> over the filters, with its two variables \<open>targets\<close>
  and \<open>all\<close>. It is only entered with \<open>op\<close> equal to \<^verbatim>\<open>"AND"\<close> or \<^verbatim>\<open>"OR"\<close>; the inner
  \<^verbatim>\<open>switch\<close> has no default branch.
\<close>

fun getTargets_loop ::
  "regexp_engine \<Rightarrow> string \<Rightarrow> bool \<Rightarrow> string list \<Rightarrow> string list \<Rightarrow> string list
     \<Rightarrow> fault + (string list \<times> string list)" where
  "getTargets_loop rx op re [] targets all = Inr (targets, all)"
| "getTargets_loop rx op re (f # fs) targets all =
     (case filter_go rx all f re of
        Inl e \<Rightarrow> Inl e
      | Inr matched \<Rightarrow>
          if op = ''AND'' then getTargets_loop rx op re fs targets matched
          else if op = ''OR'' then getTargets_loop rx op re fs (targets @ matched) all
          else getTargets_loop rx op re fs targets all)"

definition getTargets ::
  "regexp_engine \<Rightarrow> string list \<Rightarrow> string list \<Rightarrow> string \<Rightarrow> bool \<Rightarrow> fault + string list" where
  "getTargets rx hosts filters op re =
     (if op \<noteq> ''AND'' \<and> op \<noteq> ''OR'' then Inr []
      else case getTargets_loop rx op re filters [] hosts of
             Inl e \<Rightarrow> Inl e
           | Inr (targets, all) \<Rightarrow> Inr (if op = ''AND'' then all else targets))"

subsection \<open>Configuration documents\<close>

record hostConf =
  Via :: string
  Hostname :: string
  GatewayCommand :: string

text \<open>
  A Go map value is nil or a map. A nil map reads as an empty one (a lookup finds
  nothing, its length is 0, a \<^verbatim>\<open>range\<close> over it yields nothing), and a write to it
  panics.
\<close>

datatype hostmap = NilMap | GoMap "string \<rightharpoonup> hostConf"

fun entries :: "hostmap \<Rightarrow> string \<rightharpoonup> hostConf" where
  "entries NilMap = Map.empty"
| "entries (GoMap m) = m"

record conf =
  Hosts :: hostmap
  Includes :: "string list"

text \<open>
  What lies outside the program: the current user, the files, and the order in which a
  \<^verbatim>\<open>range\<close> over a map yields its keys.
  \<^item> \<open>CurrentUser\<close> is the \<^verbatim>\<open>HomeDir\<close> of \<^verbatim>\<open>user.Current()\<close>, or \<open>None\<close> when the
    lookup fails (the program drops the error and is left with a nil pointer).
  \<^item> \<open>Files path\<close> is \<open>None\<close> when \<^verbatim>\<open>ioutil.ReadFile\<close> fails; otherwise it is what
    \<^verbatim>\<open>yaml.Unmarshal\<close> leaves in the fresh \<^verbatim>\<open>conf\<close> and the error it returns, if any.
    The map \<^verbatim>\<open>loadConf\<close> makes stays when the document has no \<^verbatim>\<open>hosts\<close> key and
    is replaced by nil when the document gives \<^verbatim>\<open>hosts\<close> a null value.
  \<^item> \<open>RangeKeys m\<close> lists the keys of \<open>m\<close> in the order of this run.
\<close>

record env =
  CurrentUser :: "string option"
  Files :: "string \<rightharpoonup> conf \<times> string option"
  RangeKeys :: "(string \<rightharpoonup> hostConf) \<Rightarrow> string list"

definition expandHomeDir :: "env \<Rightarrow> string \<Rightarrow> fault + string" where
  "expandHomeDir e path =
     (case CurrentUser e of
        None \<Rightarrow> Inl (Panic NilDereference)
      | Some home \<Rightarrow>
          let dir = home @ ''/'' in
          if length path < 2 then Inl (Panic SliceOutOfRange)
          else if take 2 path = ''~/'' then Inr (Replace1 path ''~/'' dir)
          else Inr path)"

text \<open>
  The loop of \<^verbatim>\<open>conf.merge\<close> over the keys of \<open>other\<close>, in the order the \<^verbatim>\<open>range\<close>
  yields them: a key the receiver has is left alone (a note is logged, with no effect
  on the result), a key it does not have is written with the value \<open>other\<close> has for it,
  and that write panics when the receiver's map is nil.
\<close>

fun merge_range :: "string list \<Rightarrow> conf \<Rightarrow> conf \<Rightarrow> fault + conf" where
  "merge_range [] c other = Inr c"
| "merge_range (k # ks) c other =
     (case entries (Hosts c) k of
        Some _ \<Rightarrow> merge_range ks c other
      | None \<Rightarrow>
          (case Hosts c of
             NilMap \<Rightarrow> Inl (Panic AssignToNilMap)
           | GoMap m \<Rightarrow>
               merge_range ks (c\<lparr>Hosts := GoMap (m(k := entries (Hosts other) k))\<rparr>) other))"

definition merge :: "env \<Rightarrow> conf \<Rightarrow> conf \<Rightarrow> fault + conf" where
  "merge e c other = merge_range (RangeKeys e (entries (Hosts other))) c other"

text \<open>
  The loop of \<^verbatim>\<open>loadConf\<close> over the include paths; \<open>load\<close> is the recursive call.
\<close>

fun loadConf_includes ::
  "env \<Rightarrow> (string \<Rightarrow> fault + conf) \<Rightarrow> string list \<Rightarrow> conf \<Rightarrow> fault + conf" where
  "loadConf_includes e load [] v = Inr v"
| "loadConf_includes e load (p # ps) v =
     (case load p of
        Inl err \<Rightarrow> Inl err
      | Inr inc \<Rightarrow>
          (case merge e v inc of
             Inl crash \<Rightarrow> Inl crash
           | Inr v' \<Rightarrow> loadConf_includes e load ps v'))"

text \<open>
  \<^verbatim>\<open>loadConf\<close> recurses through the includes and does not return when they form a
  cycle; the first argument bounds the depth of the recursion. The error of
  \<^verbatim>\<open>yaml.Unmarshal\<close> is kept while the includes are loaded and returned at the end.
\<close>

primrec loadConf :: "nat \<Rightarrow> env \<Rightarrow> string \<Rightarrow> fault + conf" where
  "loadConf 0 e path = Inl OutOfFuel"
| "loadConf (Suc n) e path =
     (case expandHomeDir e path of
        Inl p \<Rightarrow> Inl p
      | Inr file \<Rightarrow>
          (case Files e file of
             None \<Rightarrow> Inl (ReadFileError file)
           | Some (v, err) \<Rightarrow>
               (case loadConf_includes e (loadConf n e) (Includes v) v of
                  Inl err' \<Rightarrow> Inl err'
                | Inr v' \<Rightarrow> (case err of None \<Rightarrow> Inr v' | Some msg \<Rightarrow> Inl (UnmarshalError msg)))))"

subsection \<open>Command derivation\<close>

definition zero_hostConf :: hostConf where
  "zero_hostConf = \<lparr>Via = [], Hostname = [], GatewayCommand = []\<rparr>"

definition getSSHCmdline :: "string \<Rightarrow> conf \<Rightarrow> string list" where
  "getSSHCmdline name c =
     (let h = (case entries (Hosts c) name of None \<Rightarrow> zero_hostConf | Some r \<Rightarrow> r);
          name' = (if Hostname h \<noteq> [] then Hostname h else name);
          ssh = (if GatewayCommand h \<noteq> [] then Split (GatewayCommand h) '' '' else [''ssh'', ''-t''])
      in if Via h = [] then ssh @ [name']
         else [''ssh'', ''-t''] @ [Via h] @ [GatewayCommand h @ '' '' @ name'])"

subsection \<open>The run\<close>

record opts =
  ConfigFile :: string
  Dryrun :: bool
  FixedString :: bool
  Yes :: bool
  UseTMUX :: bool
  Filters :: "string list"

text \<open>
  What a run does, in order: a line written to standard output, a byte asked from
  standard input, a command logged by \<^verbatim>\<open>getSSHCmdline\<close> when it has built it, a
  process started by \<^verbatim>\<open>tmux\<close> (not waited for) and a process run by \<^verbatim>\<open>ssh\<close> (waited for).
\<close>

datatype event =
    Stdout string
  | StdinRead
  | Built "string list"
  | Started "string list"
  | Ran "string list"

datatype exit =
    Returned          \<comment> \<open>\<^verbatim>\<open>main\<close> returns\<close>
  | Fatal string      \<comment> \<open>\<^verbatim>\<open>logrus.Fatal\<close>: a message is logged and the process exits with status 1;
                          for a returned error the string is the fault's argument and stands for
                          the error's text, which the model does not spell out\<close>
  | Crashed panic     \<comment> \<open>an unrecovered panic\<close>
  | NoReturn          \<comment> \<open>the recursion bound of the model is used up\<close>

fun fault_exit :: "fault \<Rightarrow> exit" where
  "fault_exit (Panic p) = Crashed p"
| "fault_exit (ReadFileError msg) = Fatal msg"
| "fault_exit (UnmarshalError msg) = Fatal msg"
| "fault_exit OutOfFuel = NoReturn"

text \<open>
  \<^verbatim>\<open>askyn\<close> reads one byte; \<open>stdin\<close> is what standard input still holds, and an empty
  \<open>stdin\<close> makes the read fail.
\<close>

definition askyn :: "string \<Rightarrow> bool" where
  "askyn stdin = (case stdin of [] \<Rightarrow> False | b # _ \<Rightarrow> b = CHR ''y'' \<or> b = CHR ''Y'')"

text \<open>Lines 193 to 205 of \<^verbatim>\<open>main\<close>: from the options and the keys to the sorted targets.\<close>

definition main_resolve :: "regexp_engine \<Rightarrow> opts \<Rightarrow> string list \<Rightarrow> fault + string list" where
  "main_resolve rx os keys =
     (let re = \<not> FixedString os;
          op = (if FixedString os then ''OR'' else ''AND'');
          cands = replicate (length keys) [] @ keys
      in case getTargets rx cands (Filters os) op re of
           Inl e \<Rightarrow> Inl e
         | Inr hosts \<Rightarrow> Inr (sort hosts))"

text \<open>Lines 225 to 232: one command built and handed over per host, in order.\<close>

fun main_launch :: "opts \<Rightarrow> conf \<Rightarrow> string list \<Rightarrow> event list \<times> exit" where
  "main_launch os c [] = ([], Returned)"
| "main_launch os c (host # hosts) =
     (let cmds = getSSHCmdline host c in
      if UseTMUX os then
        (let (evs, x) = main_launch os c hosts
         in (Built cmds # Started [''tmux'', ''new-window'', Join cmds '' ''] # evs, x))
      else
        (case cmds of
           [] \<Rightarrow> ([Built cmds], Crashed IndexOutOfRange)
         | _ # _ \<Rightarrow>
             (let (evs, x) = main_launch os c hosts
              in (Built cmds # Ran cmds # evs, x))))"

text \<open>Lines 207 to 232: the listing, the dry run, the two guards and the launches.\<close>

definition main_tail :: "opts \<Rightarrow> conf \<Rightarrow> string list \<Rightarrow> string \<Rightarrow> event list \<times> exit" where
  "main_tail os c hosts stdin =
     (let listing = map (\<lambda>v. Stdout (v @ [CHR 0x0A])) hosts in
      if Dryrun os then (listing, Returned)
      else if \<not> UseTMUX os \<and> length hosts > 1
      then (listing, Fatal ''Can't open multipe hosts. please use tmux mode.'')
      else if length hosts > 2 \<and> \<not> Yes os
      then
        (let asked = listing @
               [Stdout (''Too many hosts selected'' @ [CHR 0x0A] @ ''Input `y` to continue: ''),
                StdinRead] in
         if \<not> askyn stdin then (asked, Fatal ''Interrupted'')
         else (let (evs, x) = main_launch os c hosts in (asked @ evs, x)))
      else (let (evs, x) = main_launch os c hosts in (listing @ evs, x)))"

text \<open>
  \<^verbatim>\<open>main\<close>, once the command line is parsed into \<open>os\<close>: a returned error is fatal,
  a panic ends the run.
\<close>

definition main :: "regexp_engine \<Rightarrow> env \<Rightarrow> nat \<Rightarrow> opts \<Rightarrow> string \<Rightarrow> event list \<times> exit" where
  "main rx e fuel os stdin =
     (case loadConf fuel e (ConfigFile os) of
        Inl err \<Rightarrow> ([], fault_exit err)
      | Inr c \<Rightarrow>
          (case main_resolve rx os (RangeKeys e (entries (Hosts c))) of
             Inl err \<Rightarrow> ([], fault_exit err)
           | Inr hosts \<Rightarrow> main_tail os c hosts stdin))"

subsection \<open>A sample engine\<close>

text \<open>
  To run the model on concrete inputs the engine parameter needs a value. \<open>rx_sample\<close>
  covers the patterns made of ordinary characters, the dot and the star: on these it
  compiles and matches as \<^verbatim>\<open>regexp\<close> does (a match anywhere in the string, a dot for
  any byte but the newline, a star for any number of repetitions of the item before it;
  a star with nothing to repeat is refused). Every pattern with another metacharacter
  is refused, which is what \<^verbatim>\<open>regexp\<close> does for an unbalanced parenthesis and is
  not claimed for the others. The general theorems hold for every engine.
\<close>

datatype rx_atom = Lit char | AnyChar

datatype rx_item = Once rx_atom | Many rx_atom

fun rx_parse :: "string \<Rightarrow> rx_item list option" where
  "rx_parse [] = Some []"
| "rx_parse (c # cs) =
     (if c \<in> set ''*+?()[]{}^$|'' \<or> c = CHR 0x5C then None
      else
        (let a = (if c = CHR ''.'' then AnyChar else Lit c) in
         case cs of
           d # ds \<Rightarrow>
             (if d = CHR ''*''
              then (case rx_parse ds of None \<Rightarrow> None | Some is \<Rightarrow> Some (Many a # is))
              else (case rx_parse cs of None \<Rightarrow> None | Some is \<Rightarrow> Some (Once a # is)))
         | [] \<Rightarrow> Some [Once a]))"

fun rx_atom_ok :: "rx_atom \<Rightarrow> char \<Rightarrow> bool" where
  "rx_atom_ok (Lit c) d = (c = d)"
| "rx_atom_ok AnyChar d = (d \<noteq> CHR 0x0A)"

fun rx_here :: "rx_item list \<Rightarrow> string \<Rightarrow> bool" where
  "rx_here [] s = True"
| "rx_here (Once a # is) [] = False"
| "rx_here (Once a # is) (c # s) = (rx_atom_ok a c \<and> rx_here is s)"
| "rx_here (Many a # is) [] = rx_here is []"
| "rx_here (Many a # is) (c # s) =
     (rx_here is (c # s) \<or> (rx_atom_ok a c \<and> rx_here (Many a # is) s))"

fun rx_anywhere :: "rx_item list \<Rightarrow> string \<Rightarrow> bool" where
  "rx_anywhere is [] = rx_here is []"
| "rx_anywhere is (c # s) = (rx_here is (c # s) \<or> rx_anywhere is s)"

definition rx_sample :: regexp_engine where
  "rx_sample p = (case rx_parse p of None \<Rightarrow> None | Some is \<Rightarrow> Some (rx_anywhere is))"

subsection \<open>The specification's wording\<close>

text \<open>
  Two notions the specification uses and the program does not compute, for comparison
  with what the program does: the candidates without the names that start with an
  underscore, and a string split on whitespace (pieces separated by runs of blanks, as
  \<^verbatim>\<open>strings.Fields\<close> cuts them).
\<close>

definition spec_non_underscore :: "string list \<Rightarrow> string list" where
  "spec_non_underscore names = filter (\<lambda>k. \<not> HasPrefix k ''_'') names"

definition spec_is_space :: "char \<Rightarrow> bool" where
  "spec_is_space c = (c \<in> set [CHR '' '', CHR 0x09, CHR 0x0A, CHR 0x0B, CHR 0x0C, CHR 0x0D])"

fun spec_fields_from :: "string \<Rightarrow> string \<Rightarrow> string list" where
  "spec_fields_from piece [] = (if piece = [] then [] else [piece])"
| "spec_fields_from piece (c # cs) =
     (if spec_is_space c
      then (if piece = [] then spec_fields_from [] cs else piece # spec_fields_from [] cs)
      else spec_fields_from (piece @ [c]) cs)"

definition spec_split_whitespace :: "string \<Rightarrow> string list" where
  "spec_split_whitespace s = spec_fields_from [] s"

subsection \<open>Sample inputs\<close>

text \<open>
  Concrete inputs on which the model is run below: host records, a home directory with
  a configuration that includes two other documents, a configuration with a single
  host, a configuration with the same two includes whose \<^verbatim>\<open>hosts\<close> key has a null
  value, and an order of the keys.
\<close>

definition rec_plain :: hostConf where
  "rec_plain = \<lparr>Via = [], Hostname = [], GatewayCommand = []\<rparr>"

definition rec_mosh :: hostConf where
  "rec_mosh = \<lparr>Via = [], Hostname = ''10.0.0.1'', GatewayCommand = ''mosh''\<rparr>"

definition rec_bastion :: hostConf where
  "rec_bastion = \<lparr>Via = ''bastion'', Hostname = [], GatewayCommand = ''sshpass -f x ssh''\<rparr>"

definition rec_tab :: hostConf where
  "rec_tab = \<lparr>Via = [], Hostname = [], GatewayCommand = ''ssh'' @ [CHR 0x09] @ ''-A''\<rparr>"

definition rec_via_only :: hostConf where
  "rec_via_only = \<lparr>Via = ''bastion'', Hostname = [], GatewayCommand = []\<rparr>"

definition sample_files :: "string \<rightharpoonup> conf \<times> string option" where
  "sample_files =
     [''/home/u/.mssh'' \<mapsto>
        (\<lparr>Hosts = GoMap [''web1'' \<mapsto> rec_plain, ''db1'' \<mapsto> rec_mosh],
          Includes = [''~/inc1.yml'', ''/etc/mssh/inc2.yml'']\<rparr>, None),
      ''/home/u/inc1.yml'' \<mapsto>
        (\<lparr>Hosts = GoMap [''db1'' \<mapsto> rec_plain, ''web2'' \<mapsto> rec_bastion], Includes = []\<rparr>, None),
      ''/etc/mssh/inc2.yml'' \<mapsto>
        (\<lparr>Hosts = GoMap [''web2'' \<mapsto> rec_plain, ''_tpl'' \<mapsto> rec_mosh], Includes = []\<rparr>, None),
      ''/home/u/one.yml'' \<mapsto>
        (\<lparr>Hosts = GoMap [''web1'' \<mapsto> rec_plain], Includes = []\<rparr>, None),
      ''/home/u/null.yml'' \<mapsto>
        (\<lparr>Hosts = NilMap, Includes = [''~/inc1.yml'', ''/etc/mssh/inc2.yml'']\<rparr>, None)]"

definition sample_keys :: "(string \<rightharpoonup> hostConf) \<Rightarrow> string list" where
  "sample_keys m = filter (\<lambda>k. m k \<noteq> None) [''web2'', ''_tpl'', ''web1'', ''db1'']"

definition sample_env :: env where
  "sample_env = \<lparr>CurrentUser = Some ''/home/u'', Files = sample_files, RangeKeys = sample_keys\<rparr>"

definition no_user_env :: env where
  "no_user_env = \<lparr>CurrentUser = None, Files = sample_files, RangeKeys = sample_keys\<rparr>"

definition sample_opts :: opts where
  "sample_opts =
     \<lparr>ConfigFile = ''~/.mssh'', Dryrun = False, FixedString = False, Yes = False,
      UseTMUX = True, Filters = [''web.*'']\<rparr>"

section \<open>Properties\<close>

subsection \<open>What a filter returns\<close>

lemma filter_go_Inr:
  assumes "filter_go rx elems f re = Inr matched"
  shows "set matched \<subseteq> set elems" and "\<forall>k\<in>set matched. \<not> HasPrefix k ''_''"
    and "distinct elems \<Longrightarrow> distinct matched"
  using assms by (auto simp: filter_go_def split: option.splits)

lemma getTargets_loop_targets_clean:
  "getTargets_loop rx op re fs targets all = Inr (targets', all') \<Longrightarrow>
   \<forall>k\<in>set targets. \<not> HasPrefix k ''_'' \<Longrightarrow>
   \<forall>k\<in>set targets'. \<not> HasPrefix k ''_''"
proof (induction fs arbitrary: targets all)
  case Nil
  then show ?case by simp
next
  case (Cons f fs)
  from Cons.prems(1) obtain matched where m: "filter_go rx all f re = Inr matched"
    by (auto split: sum.splits)
  have clean: "\<forall>k\<in>set matched. \<not> HasPrefix k ''_''"
    using filter_go_Inr(2) [OF m] .
  show ?case
  proof (cases "op = ''AND''")
    case True
    with Cons.prems m have "getTargets_loop rx op re fs targets matched = Inr (targets', all')"
      by simp
    then show ?thesis using Cons.IH Cons.prems(2) by blast
  next
    case False
    note notand = this
    show ?thesis
    proof (cases "op = ''OR''")
      case True
      with notand Cons.prems m
      have "getTargets_loop rx op re fs (targets @ matched) all = Inr (targets', all')"
        by simp
      moreover have "\<forall>k\<in>set (targets @ matched). \<not> HasPrefix k ''_''"
        using clean Cons.prems(2) by auto
      ultimately show ?thesis using Cons.IH by blast
    next
      case False
      with notand Cons.prems m
      have "getTargets_loop rx op re fs targets all = Inr (targets', all')"
        by simp
      then show ?thesis using Cons.IH Cons.prems(2) by blast
    qed
  qed
qed

lemma getTargets_loop_AND_clean:
  "getTargets_loop rx ''AND'' re fs targets all = Inr (targets', all') \<Longrightarrow>
   \<forall>k\<in>set all. \<not> HasPrefix k ''_'' \<Longrightarrow>
   \<forall>k\<in>set all'. \<not> HasPrefix k ''_''"
proof (induction fs arbitrary: all)
  case Nil
  then show ?case by simp
next
  case (Cons f fs)
  from Cons.prems(1) obtain matched where m: "filter_go rx all f re = Inr matched"
    by (auto split: sum.splits)
  with Cons.prems have "getTargets_loop rx ''AND'' re fs targets matched = Inr (targets', all')"
    by simp
  then show ?case using Cons.IH filter_go_Inr(2) [OF m] by blast
qed

subsection \<open>Underscore names\<close>

text \<open>
  Claim C1, as amended. When \<^verbatim>\<open>getTargets\<close> returns and the filter list is not empty
  or the mode is not \<^verbatim>\<open>"AND"\<close>, no returned name starts with an underscore, for every
  candidate list, every engine and both matching modes. (The names are skipped inside
  \<^verbatim>\<open>filter\<close>; with no filter in \<^verbatim>\<open>"AND"\<close> mode the candidates come back as they are.)
\<close>

theorem getTargets_no_underscore:
  assumes res: "getTargets rx hosts filters op re = Inr targets"
    and gate: "filters \<noteq> [] \<or> op \<noteq> ''AND''"
  shows "\<forall>t\<in>set targets. \<not> HasPrefix t ''_''"
proof (cases "op = ''AND''")
  case True
  with gate obtain f fs where fs: "filters = f # fs" by (cases filters) auto
  from res True obtain ts al where
    loop: "getTargets_loop rx ''AND'' re (f # fs) [] hosts = Inr (ts, al)" and t: "targets = al"
    by (auto simp: getTargets_def fs split: sum.splits prod.splits)
  from loop obtain matched where m: "filter_go rx hosts f re = Inr matched"
    by (auto split: sum.splits)
  with loop have "getTargets_loop rx ''AND'' re fs [] matched = Inr (ts, al)" by simp
  then show ?thesis
    using getTargets_loop_AND_clean filter_go_Inr(2) [OF m] t by blast
next
  case False
  show ?thesis
  proof (cases "op = ''OR''")
    case True
    from res True obtain ts al where
      loop: "getTargets_loop rx op re filters [] hosts = Inr (ts, al)" and t: "targets = ts"
      by (auto simp: getTargets_def split: sum.splits prod.splits)
    have "\<forall>k\<in>set ([]::string list). \<not> HasPrefix k ''_''" by simp
    with loop have "\<forall>k\<in>set ts. \<not> HasPrefix k ''_''"
      by (rule getTargets_loop_targets_clean)
    with t show ?thesis by simp
  next
    case False
    with \<open>op \<noteq> ''AND''\<close> res show ?thesis by (simp add: getTargets_def)
  qed
qed

theorem getTargets_no_underscore_witness:
  "getTargets rx_sample [''web1'', ''web2'', ''_tpl''] [''.*''] ''AND'' True = Inr [''web1'', ''web2'']
   \<and> \<not> HasPrefix ''web1'' ''_'' \<and> \<not> HasPrefix ''web2'' ''_''"
proof -
  have r: "getTargets rx_sample [''web1'', ''web2'', ''_tpl''] [''.*''] ''AND'' True = Inr [''web1'', ''web2'']"
    by code_simp
  have g: "[''.*''] \<noteq> [] \<or> ''AND'' \<noteq> ''AND''" by simp
  from getTargets_no_underscore [OF r g] r show ?thesis by simp
qed

text \<open>
  Claim C1 as stated fails for the empty filter list in \<^verbatim>\<open>"AND"\<close> mode: the candidate
  \<^verbatim>\<open>_tpl\<close> is returned.
\<close>

theorem getTargets_empty_AND_keeps_underscore:
  "getTargets rx_sample [''_tpl'', ''web1''] [] ''AND'' True = Inr [''_tpl'', ''web1'']
   \<and> HasPrefix ''_tpl'' ''_''"
  by (simp add: getTargets_def HasPrefix_def)

subsection \<open>No filters\<close>

text \<open>
  Claim C2, as amended. With an empty filter list \<^verbatim>\<open>getTargets\<close> returns the candidate
  list unchanged in \<^verbatim>\<open>"AND"\<close> mode, underscore names included, and the empty list in
  \<^verbatim>\<open>"OR"\<close> mode.
\<close>

theorem getTargets_no_filters:
  "getTargets rx hosts [] ''AND'' re = Inr hosts \<and> getTargets rx hosts [] ''OR'' re = Inr []"
  by (simp add: getTargets_def)

text \<open>
  Claim C2 as stated fails: in \<^verbatim>\<open>"AND"\<close> mode the result is not the candidate list
  without its underscore names.
\<close>

theorem getTargets_no_filters_counterexample:
  "getTargets rx_sample [''_base'', ''db1''] [] ''AND'' False
     \<noteq> Inr (spec_non_underscore [''_base'', ''db1''])"
  by (simp add: getTargets_def spec_non_underscore_def HasPrefix_def)

subsection \<open>Literal mode\<close>





subsection \<open>Order and duplicates\<close>

lemma getTargets_loop_AND_distinct:
  "getTargets_loop rx ''AND'' re fs targets all = Inr (targets', all') \<Longrightarrow>
   distinct all \<Longrightarrow> distinct all'"
proof (induction fs arbitrary: all)
  case Nil
  then show ?case by simp
next
  case (Cons f fs)
  from Cons.prems(1) obtain matched where m: "filter_go rx all f re = Inr matched"
    by (auto split: sum.splits)
  with Cons.prems have "getTargets_loop rx ''AND'' re fs targets matched = Inr (targets', all')"
    by simp
  then show ?case using Cons.IH filter_go_Inr(3) [OF m] Cons.prems(2) by blast
qed

lemma getTargets_loop_OR_concat:
  "getTargets_loop rx ''OR'' re fs targets all = Inr (targets', all') \<Longrightarrow>
   targets' = targets @ concat (map (\<lambda>f. projr (filter_go rx all f re)) fs)"
proof (induction fs arbitrary: targets)
  case Nil
  then show ?case by simp
next
  case (Cons f fs)
  from Cons.prems obtain matched where m: "filter_go rx all f re = Inr matched"
    by (auto split: sum.splits)
  with Cons.prems have "getTargets_loop rx ''OR'' re fs (targets @ matched) all = Inr (targets', all')"
    by simp
  from Cons.IH [OF this] m show ?case by simp
qed

lemma main_resolve_sorted: "main_resolve rx os keys = Inr hosts \<Longrightarrow> sorted hosts"
  by (auto simp: main_resolve_def Let_def split: sum.splits)

text \<open>
  Claim C3, as amended. The sequence \<^verbatim>\<open>main\<close> resolves is sorted ascending. Nothing
  removes duplicates: in \<^verbatim>\<open>"AND"\<close> mode the result of distinct candidates is distinct,
  and in \<^verbatim>\<open>"OR"\<close> mode the result is the concatenation of what each filter matches
  among the candidates, so a name comes once for every filter that matches it.
\<close>

theorem resolved_sorted_not_deduplicated:
  "(main_resolve rx os keys = Inr hosts \<longrightarrow> sorted hosts)
   \<and> (getTargets rx cands fs ''AND'' re = Inr ts \<and> distinct cands \<longrightarrow> distinct (sort ts))
   \<and> (getTargets rx cands fs ''OR'' re = Inr ts
        \<longrightarrow> ts = concat (map (\<lambda>f. projr (filter_go rx cands f re)) fs))"
proof (intro conjI impI)
  assume "main_resolve rx os keys = Inr hosts"
  then show "sorted hosts" by (rule main_resolve_sorted)
next
  assume a: "getTargets rx cands fs ''AND'' re = Inr ts \<and> distinct cands"
  then obtain t' where "getTargets_loop rx ''AND'' re fs [] cands = Inr (t', ts)"
    by (auto simp: getTargets_def split: sum.splits prod.splits)
  with a have "distinct ts" using getTargets_loop_AND_distinct by blast
  then show "distinct (sort ts)" by simp
next
  assume "getTargets rx cands fs ''OR'' re = Inr ts"
  then obtain a' where "getTargets_loop rx ''OR'' re fs [] cands = Inr (ts, a')"
    by (auto simp: getTargets_def split: sum.splits prod.splits)
  from getTargets_loop_OR_concat [OF this]
  show "ts = concat (map (\<lambda>f. projr (filter_go rx cands f re)) fs)" by simp
qed

theorem resolved_sorted_not_deduplicated_witness:
  "main_resolve rx_sample sample_opts [''web2'', ''_tpl'', ''web1'', ''db1''] = Inr [''web1'', ''web2'']
   \<and> sorted [''web1'', ''web2'']
   \<and> getTargets rx_sample [''web2'', ''_tpl'', ''web1''] [''web'', ''1''] ''AND'' True = Inr [''web1'']
   \<and> distinct [''web2'', ''_tpl'', ''web1''] \<and> distinct (sort [''web1''])
   \<and> getTargets rx_sample [''web2'', ''_tpl'', ''web1''] [''web'', ''1''] ''OR'' True
       = Inr [''web2'', ''web1'', ''web1'']"
proof -
  have 1: "main_resolve rx_sample sample_opts [''web2'', ''_tpl'', ''web1'', ''db1''] = Inr [''web1'', ''web2'']"
    by code_simp
  have 2: "getTargets rx_sample [''web2'', ''_tpl'', ''web1''] [''web'', ''1''] ''AND'' True = Inr [''web1'']"
    by code_simp
  have 3: "distinct [''web2'', ''_tpl'', ''web1'']" by simp
  have 4: "getTargets rx_sample [''web2'', ''_tpl'', ''web1''] [''web'', ''1''] ''OR'' True
       = Inr [''web2'', ''web1'', ''web1'']"
    by code_simp
  note t = resolved_sorted_not_deduplicated
  from t [of rx_sample sample_opts "[''web2'', ''_tpl'', ''web1'', ''db1'']" "[''web1'', ''web2'']"] 1
  have s: "sorted [''web1'', ''web2'']" by blast
  from t [of rx_sample _ _ _ "[''web2'', ''_tpl'', ''web1'']" "[''web'', ''1'']" True "[''web1'']"] 2 3
  have d: "distinct (sort [''web1''])" by blast
  from 1 2 3 4 s d show ?thesis by blast
qed

text \<open>
  Claim C3 as stated fails: in fixed-string mode two filters that match the same name
  leave it twice in the sequence \<^verbatim>\<open>main\<close> resolves.
\<close>

theorem resolved_duplicates:
  "main_resolve rx_sample (sample_opts\<lparr>FixedString := True, Filters := [''web1'', ''web1'']\<rparr>)
     [''web2'', ''web1''] = Inr [''web1'', ''web1'']
   \<and> \<not> distinct [''web1'', ''web1'']"
  by code_simp

subsection \<open>Targets and keys\<close>

text \<open>
  \<^verbatim>\<open>getTargets\<close> only returns names it was given. In \<^verbatim>\<open>main\<close> the candidates are
  not the keys alone: \<^verbatim>\<open>make([]string, len(c.Hosts))\<close> makes a slice of that many empty
  strings, and the keys are appended to it.
\<close>

lemma getTargets_loop_subset:
  "getTargets_loop rx op re fs targets all = Inr (targets', all') \<Longrightarrow>
   set targets \<subseteq> S \<Longrightarrow> set all \<subseteq> S \<Longrightarrow> set targets' \<subseteq> S \<and> set all' \<subseteq> S"
proof (induction fs arbitrary: targets all)
  case Nil
  then show ?case by simp
next
  case (Cons f fs)
  from Cons.prems(1) obtain matched where m: "filter_go rx all f re = Inr matched"
    by (auto split: sum.splits)
  have sub: "set matched \<subseteq> S" using filter_go_Inr(1) [OF m] Cons.prems(3) by blast
  consider (a) "op = ''AND''" | (b) "op \<noteq> ''AND''" "op = ''OR''" | (c) "op \<noteq> ''AND''" "op \<noteq> ''OR''"
    by blast
  then show ?case
  proof cases
    case a
    with Cons.prems(1) m have "getTargets_loop rx op re fs targets matched = Inr (targets', all')"
      by simp
    from Cons.IH [OF this Cons.prems(2) sub] show ?thesis .
  next
    case b
    with Cons.prems(1) m have "getTargets_loop rx op re fs (targets @ matched) all = Inr (targets', all')"
      by simp
    moreover have "set (targets @ matched) \<subseteq> S" using sub Cons.prems(2) by simp
    ultimately show ?thesis using Cons.IH Cons.prems(3) by blast
  next
    case c
    with Cons.prems(1) m have "getTargets_loop rx op re fs targets all = Inr (targets', all')"
      by simp
    from Cons.IH [OF this Cons.prems(2) Cons.prems(3)] show ?thesis .
  qed
qed

lemma getTargets_subset:
  "getTargets rx hosts fs op re = Inr ts \<Longrightarrow> set ts \<subseteq> set hosts"
proof (cases "op \<noteq> ''AND'' \<and> op \<noteq> ''OR''")
  case True
  assume "getTargets rx hosts fs op re = Inr ts"
  with True show ?thesis by (simp add: getTargets_def)
next
  case False
  assume "getTargets rx hosts fs op re = Inr ts"
  with False obtain t' a' where
    loop: "getTargets_loop rx op re fs [] hosts = Inr (t', a')" and ts: "ts = t' \<or> ts = a'"
    by (auto simp: getTargets_def split: sum.splits prod.splits if_splits)
  have "set t' \<subseteq> set hosts \<and> set a' \<subseteq> set hosts"
    by (rule getTargets_loop_subset [OF loop]) simp_all
  with ts show ?thesis by blast
qed

text \<open>
  Claim C4 fails on the program. With the single host \<^verbatim>\<open>web1\<close> configured and the
  filter \<^verbatim>\<open>.*\<close>, the sequence \<^verbatim>\<open>main\<close> resolves holds the empty name, which is no
  key of the configuration, and in multiplexer mode a window is opened for it.
\<close>

theorem padding_reaches_launch:
  "loadConf 1 sample_env ''~/one.yml'' = Inr \<lparr>Hosts = GoMap [''web1'' \<mapsto> rec_plain], Includes = []\<rparr>
   \<and> main_resolve rx_sample (sample_opts\<lparr>Filters := [''.*'']\<rparr>) (sample_keys [''web1'' \<mapsto> rec_plain])
       = Inr ['''', ''web1'']
   \<and> '''' \<notin> dom [''web1'' \<mapsto> rec_plain]
   \<and> main rx_sample sample_env 1 (sample_opts\<lparr>ConfigFile := ''~/one.yml'', Filters := [''.*'']\<rparr>) []
       = ([Stdout [CHR 0x0A], Stdout (''web1'' @ [CHR 0x0A]),
           Built [''ssh'', ''-t'', ''''], Started [''tmux'', ''new-window'', ''ssh -t ''],
           Built [''ssh'', ''-t'', ''web1''], Started [''tmux'', ''new-window'', ''ssh -t web1'']],
          Returned)"
  apply (intro conjI)
  subgoal by (simp add: sample_env_def sample_files_def expandHomeDir_def HasPrefix_def)
  subgoal by code_simp
  subgoal by simp
  subgoal by code_simp
  done

subsection \<open>Includes\<close>

lemma merge_range_NilMap:
  "Hosts c = NilMap \<Longrightarrow>
   merge_range ks c other = (if ks = [] then Inr c else Inl (Panic AssignToNilMap))"
  by (cases ks) simp_all

lemma merge_range_GoMap:
  "Hosts c = GoMap m \<Longrightarrow>
   merge_range ks c other
     = Inr (c\<lparr>Hosts := GoMap (\<lambda>j. case m j of
                                     Some v \<Rightarrow> Some v
                                   | None \<Rightarrow> if j \<in> set ks then entries (Hosts other) j else None)\<rparr>)"
proof (induction ks arbitrary: c m)
  case Nil
  have "(\<lambda>j. case m j of Some v \<Rightarrow> Some v
              | None \<Rightarrow> if j \<in> set [] then entries (Hosts other) j else None) = m"
    by (auto simp: fun_eq_iff split: option.splits)
  moreover from Nil have "c\<lparr>Hosts := GoMap m\<rparr> = c" by (cases c) simp
  ultimately show ?case by simp
next
  case (Cons k ks)
  show ?case
  proof (cases "m k")
    case (Some v)
    have "(\<lambda>j. case m j of Some v \<Rightarrow> Some v
                | None \<Rightarrow> if j \<in> set (k # ks) then entries (Hosts other) j else None)
        = (\<lambda>j. case m j of Some v \<Rightarrow> Some v
                | None \<Rightarrow> if j \<in> set ks then entries (Hosts other) j else None)"
      using Some by (auto simp: fun_eq_iff split: option.splits)
    with Some Cons.prems Cons.IH [OF Cons.prems] show ?thesis by simp
  next
    case None
    let ?m' = "m(k := entries (Hosts other) k)"
    let ?c' = "c\<lparr>Hosts := GoMap ?m'\<rparr>"
    have step: "merge_range (k # ks) c other = merge_range ks ?c' other"
      using None Cons.prems by simp
    have "Hosts ?c' = GoMap ?m'" by simp
    from Cons.IH [OF this]
    have "merge_range ks ?c' other
        = Inr (?c'\<lparr>Hosts := GoMap (\<lambda>j. case ?m' j of
                                           Some v \<Rightarrow> Some v
                                         | None \<Rightarrow> if j \<in> set ks then entries (Hosts other) j else None)\<rparr>)"
      by simp
    moreover have "(\<lambda>j. case ?m' j of Some v \<Rightarrow> Some v
                | None \<Rightarrow> if j \<in> set ks then entries (Hosts other) j else None)
        = (\<lambda>j. case m j of Some v \<Rightarrow> Some v
                | None \<Rightarrow> if j \<in> set (k # ks) then entries (Hosts other) j else None)"
      using None by (auto simp: fun_eq_iff split: option.splits)
    ultimately show ?thesis using step by simp
  qed
qed

lemma merge_keeps:
  "merge e c other = Inr c' \<Longrightarrow> entries (Hosts c) k = Some r \<Longrightarrow> entries (Hosts c') k = Some r"
proof (cases "Hosts c")
  case NilMap
  assume "entries (Hosts c) k = Some r"
  with NilMap show ?thesis by simp
next
  case (GoMap m)
  assume "merge e c other = Inr c'" and "entries (Hosts c) k = Some r"
  with GoMap merge_range_GoMap [OF GoMap] show ?thesis by (auto simp: merge_def)
qed

lemma merge_adds:
  assumes listed: "set (RangeKeys e (entries (Hosts other))) = dom (entries (Hosts other))"
    and res: "merge e c other = Inr c'"
    and absent: "entries (Hosts c) k = None"
  shows "entries (Hosts c') k = entries (Hosts other) k"
proof (cases "Hosts c")
  case NilMap
  with res merge_range_NilMap [OF NilMap]
  have "RangeKeys e (entries (Hosts other)) = []" and "c' = c"
    by (auto simp: merge_def split: if_splits)
  with listed NilMap have "entries (Hosts other) k = None" and "entries (Hosts c') k = None"
    by auto
  then show ?thesis by simp
next
  case (GoMap m)
  with absent have "m k = None" by simp
  moreover have "k \<notin> dom (entries (Hosts other)) \<Longrightarrow> entries (Hosts other) k = None"
    by auto
  ultimately show ?thesis
    using res listed merge_range_GoMap [OF GoMap] by (auto simp: merge_def)
qed

lemma merge_not_nil:
  "Hosts c \<noteq> NilMap \<Longrightarrow> \<exists>c'. merge e c other = Inr c' \<and> Hosts c' \<noteq> NilMap"
proof (cases "Hosts c")
  case NilMap
  assume "Hosts c \<noteq> NilMap"
  with NilMap show ?thesis by simp
next
  case (GoMap m)
  from merge_range_GoMap [OF GoMap] show ?thesis by (simp add: merge_def)
qed

lemma loadConf_includes_keeps:
  "loadConf_includes e load ps v = Inr v' \<Longrightarrow> entries (Hosts v) k = Some r \<Longrightarrow>
   entries (Hosts v') k = Some r"
proof (induction ps arbitrary: v)
  case Nil
  then show ?case by simp
next
  case (Cons p ps)
  from Cons.prems(1) obtain inc w where inc: "load p = Inr inc"
    and w: "merge e v inc = Inr w"
    and rest: "loadConf_includes e load ps w = Inr v'"
    by (auto split: sum.splits)
  from Cons.IH [OF rest merge_keeps [OF w Cons.prems(2)]] show ?case .
qed

lemma loadConf_includes_first:
  "loadConf_includes e load (xs @ p # ys) v = Inr v' \<Longrightarrow>
   entries (Hosts v) k = None \<Longrightarrow>
   \<forall>q\<in>set xs. \<forall>cq. load q = Inr cq \<longrightarrow>
     entries (Hosts cq) k = None
     \<and> set (RangeKeys e (entries (Hosts cq))) = dom (entries (Hosts cq)) \<Longrightarrow>
   load p = Inr cp \<Longrightarrow> entries (Hosts cp) k = Some r \<Longrightarrow>
   set (RangeKeys e (entries (Hosts cp))) = dom (entries (Hosts cp)) \<Longrightarrow>
   entries (Hosts v') k = Some r"
proof (induction xs arbitrary: v)
  case Nil
  then obtain w where w: "merge e v cp = Inr w"
    and rest: "loadConf_includes e load ys w = Inr v'"
    by (auto split: sum.splits)
  have "entries (Hosts w) k = Some r"
    using merge_adds [OF Nil.prems(6) w Nil.prems(2)] Nil.prems(5) by simp
  from loadConf_includes_keeps [OF rest this] show ?case .
next
  case (Cons x xs)
  from Cons.prems(1) obtain cx w where cx: "load x = Inr cx"
    and w: "merge e v cx = Inr w"
    and rest: "loadConf_includes e load (xs @ p # ys) w = Inr v'"
    by (auto split: sum.splits)
  from Cons.prems(3) cx have nx: "entries (Hosts cx) k = None"
    and lx: "set (RangeKeys e (entries (Hosts cx))) = dom (entries (Hosts cx))" by simp_all
  have none: "entries (Hosts w) k = None"
    using merge_adds [OF lx w Cons.prems(2)] nx by simp
  from Cons.prems(3)
  have others: "\<forall>q\<in>set xs. \<forall>cq. load q = Inr cq \<longrightarrow>
      entries (Hosts cq) k = None
      \<and> set (RangeKeys e (entries (Hosts cq))) = dom (entries (Hosts cq))"
    by simp
  from Cons.IH [OF rest none others Cons.prems(4) Cons.prems(5) Cons.prems(6)] show ?case .
qed

lemma loadConf_includes_total:
  "Hosts v \<noteq> NilMap \<Longrightarrow> \<forall>q\<in>set ps. \<exists>cq. load q = Inr cq \<Longrightarrow>
   \<exists>v'. loadConf_includes e load ps v = Inr v'"
proof (induction ps arbitrary: v)
  case Nil
  then show ?case by simp
next
  case (Cons p ps)
  from Cons.prems(2) obtain cp where cp: "load p = Inr cp" by auto
  from merge_not_nil [OF Cons.prems(1)] obtain w
    where w: "merge e v cp = Inr w" and nn: "Hosts w \<noteq> NilMap" by blast
  from Cons.prems(2) have "\<forall>q\<in>set ps. \<exists>cq. load q = Inr cq" by simp
  from Cons.IH [OF nn this] cp w show ?case by simp
qed

lemma loadConf_includes_mono:
  "loadConf_includes e load ps v = Inr v' \<Longrightarrow>
   (\<And>q cq. load q = Inr cq \<Longrightarrow> load' q = Inr cq) \<Longrightarrow>
   loadConf_includes e load' ps v = Inr v'"
proof (induction ps arbitrary: v)
  case Nil
  then show ?case by simp
next
  case (Cons p ps)
  from Cons.prems(1) obtain inc w where inc: "load p = Inr inc"
    and w: "merge e v inc = Inr w"
    and rest: "loadConf_includes e load ps w = Inr v'"
    by (auto split: sum.splits)
  from Cons.prems(2) [OF inc] w Cons.IH [OF rest Cons.prems(2)] show ?case by simp
qed

text \<open>A load that returns with some bound returns the same with a larger one.\<close>

lemma loadConf_more_fuel: "loadConf n e path = Inr c \<Longrightarrow> loadConf (Suc n) e path = Inr c"
proof (induction n arbitrary: path c)
  case 0
  then show ?case by simp
next
  case (Suc n)
  from Suc.prems obtain expanded v where f: "expandHomeDir e path = Inr expanded"
    and d: "Files e expanded = Some (v, None)"
    and i: "loadConf_includes e (loadConf n e) (Includes v) v = Inr c"
    by (auto split: sum.splits option.splits prod.splits)
  have "loadConf_includes e (loadConf (Suc n) e) (Includes v) v = Inr c"
    using i Suc.IH by (rule loadConf_includes_mono)
  with f d show ?case by simp
qed

text \<open>
  First write wins, for a document whose map is not nil. Take a document that is read
  and decoded without error into a map that is not nil, all of whose includes load, the
  \<^verbatim>\<open>range\<close> over each loaded include yielding its keys. Then the load succeeds (a
  duplicate is no failure); every host the document declares itself keeps the
  document's record; and a host the document does not declare has the record of the
  first include, in the order listed, whose loaded configuration has it.
\<close>

lemma loadConf_first_write_wins:
  assumes expanded: "expandHomeDir e path = Inr file"
    and doc: "Files e file = Some (v, None)"
    and made: "Hosts v \<noteq> NilMap"
    and incs: "\<forall>q\<in>set (Includes v). \<exists>cq. loadConf n e q = Inr cq"
    and listed: "\<forall>q\<in>set (Includes v). \<forall>cq. loadConf n e q = Inr cq \<longrightarrow>
                   set (RangeKeys e (entries (Hosts cq))) = dom (entries (Hosts cq))"
  shows "\<exists>c. loadConf (Suc n) e path = Inr c
           \<and> (\<forall>k r. entries (Hosts v) k = Some r \<longrightarrow> entries (Hosts c) k = Some r)
           \<and> (\<forall>xs p ys cp k r.
                 Includes v = xs @ p # ys \<and> entries (Hosts v) k = None
                 \<and> (\<forall>q\<in>set xs. \<forall>cq. loadConf n e q = Inr cq \<longrightarrow> entries (Hosts cq) k = None)
                 \<and> loadConf n e p = Inr cp \<and> entries (Hosts cp) k = Some r
                 \<longrightarrow> entries (Hosts c) k = Some r)"
proof -
  from loadConf_includes_total [OF made incs]
  obtain c where c: "loadConf_includes e (loadConf n e) (Includes v) v = Inr c" by blast
  with expanded doc have load: "loadConf (Suc n) e path = Inr c" by simp
  have own: "\<forall>k r. entries (Hosts v) k = Some r \<longrightarrow> entries (Hosts c) k = Some r"
    using loadConf_includes_keeps [OF c] by blast
  have inc: "\<forall>xs p ys cp k r.
      Includes v = xs @ p # ys \<and> entries (Hosts v) k = None
      \<and> (\<forall>q\<in>set xs. \<forall>cq. loadConf n e q = Inr cq \<longrightarrow> entries (Hosts cq) k = None)
      \<and> loadConf n e p = Inr cp \<and> entries (Hosts cp) k = Some r
      \<longrightarrow> entries (Hosts c) k = Some r"
  proof (intro allI impI)
    fix xs p ys cp k r
    assume a: "Includes v = xs @ p # ys \<and> entries (Hosts v) k = None
      \<and> (\<forall>q\<in>set xs. \<forall>cq. loadConf n e q = Inr cq \<longrightarrow> entries (Hosts cq) k = None)
      \<and> loadConf n e p = Inr cp \<and> entries (Hosts cp) k = Some r"
    with c have l: "loadConf_includes e (loadConf n e) (xs @ p # ys) v = Inr c" by simp
    have before: "\<forall>q\<in>set xs. \<forall>cq. loadConf n e q = Inr cq \<longrightarrow>
        entries (Hosts cq) k = None
        \<and> set (RangeKeys e (entries (Hosts cq))) = dom (entries (Hosts cq))"
    proof (intro ballI allI impI)
      fix q cq
      assume q: "q \<in> set xs" and cq: "loadConf n e q = Inr cq"
      from q a have "q \<in> set (Includes v)" by simp
      with listed cq
      have "set (RangeKeys e (entries (Hosts cq))) = dom (entries (Hosts cq))" by blast
      moreover from a q cq have "entries (Hosts cq) k = None" by blast
      ultimately show "entries (Hosts cq) k = None
        \<and> set (RangeKeys e (entries (Hosts cq))) = dom (entries (Hosts cq))" by simp
    qed
    from a have "p \<in> set (Includes v)" and "loadConf n e p = Inr cp" by simp_all
    with listed
    have here: "set (RangeKeys e (entries (Hosts cp))) = dom (entries (Hosts cp))"
      by blast
    from a have 1: "entries (Hosts v) k = None" and 2: "loadConf n e p = Inr cp"
      and 3: "entries (Hosts cp) k = Some r" by simp_all
    from loadConf_includes_first [OF l 1 before 2 3 here]
    show "entries (Hosts c) k = Some r" .
  qed
  from load own inc show ?thesis by blast
qed

lemma sample_expand: "expandHomeDir sample_env ''~/.mssh'' = Inr ''/home/u/.mssh''"
  by (simp add: expandHomeDir_def sample_env_def HasPrefix_def)

lemma sample_inc1:
  "loadConf 1 sample_env ''~/inc1.yml''
     = Inr \<lparr>Hosts = GoMap [''db1'' \<mapsto> rec_plain, ''web2'' \<mapsto> rec_bastion], Includes = []\<rparr>"
  by (simp add: expandHomeDir_def sample_env_def sample_files_def HasPrefix_def)

lemma sample_inc2:
  "loadConf 1 sample_env ''/etc/mssh/inc2.yml''
     = Inr \<lparr>Hosts = GoMap [''web2'' \<mapsto> rec_plain, ''_tpl'' \<mapsto> rec_mosh], Includes = []\<rparr>"
  by (simp add: expandHomeDir_def sample_env_def sample_files_def HasPrefix_def)

lemma loadConf_first_write_wins_sample:
  "\<exists>c. loadConf 2 sample_env ''~/.mssh'' = Inr c
     \<and> entries (Hosts c) ''db1'' = Some rec_mosh \<and> entries (Hosts c) ''web2'' = Some rec_bastion"
proof -
  let ?v = "\<lparr>Hosts = GoMap [''web1'' \<mapsto> rec_plain, ''db1'' \<mapsto> rec_mosh],
             Includes = [''~/inc1.yml'', ''/etc/mssh/inc2.yml'']\<rparr>"
  let ?c1 = "\<lparr>Hosts = GoMap [''db1'' \<mapsto> rec_plain, ''web2'' \<mapsto> rec_bastion], Includes = []\<rparr>"
  have doc: "Files sample_env ''/home/u/.mssh'' = Some (?v, None)"
    by (simp add: sample_env_def sample_files_def)
  have made: "Hosts ?v \<noteq> NilMap" by simp
  have incs: "\<forall>q\<in>set (Includes ?v). \<exists>cq. loadConf 1 sample_env q = Inr cq"
    using sample_inc1 sample_inc2 by simp
  have listed: "\<forall>q\<in>set (Includes ?v). \<forall>cq. loadConf 1 sample_env q = Inr cq \<longrightarrow>
      set (RangeKeys sample_env (entries (Hosts cq))) = dom (entries (Hosts cq))"
    using sample_inc1 sample_inc2 by (auto simp: sample_env_def sample_keys_def)
  from loadConf_first_write_wins [OF sample_expand doc made incs listed]
  obtain c where load: "loadConf (Suc 1) sample_env ''~/.mssh'' = Inr c"
    and own: "\<forall>k r. entries (Hosts ?v) k = Some r \<longrightarrow> entries (Hosts c) k = Some r"
    and inc: "\<forall>xs p ys cp k r.
      Includes ?v = xs @ p # ys \<and> entries (Hosts ?v) k = None
      \<and> (\<forall>q\<in>set xs. \<forall>cq. loadConf 1 sample_env q = Inr cq \<longrightarrow> entries (Hosts cq) k = None)
      \<and> loadConf 1 sample_env p = Inr cp \<and> entries (Hosts cp) k = Some r
      \<longrightarrow> entries (Hosts c) k = Some r"
    by blast
  have "entries (Hosts ?v) ''db1'' = Some rec_mosh" by simp
  with own have db1: "entries (Hosts c) ''db1'' = Some rec_mosh" by blast
  have "Includes ?v = [] @ ''~/inc1.yml'' # [''/etc/mssh/inc2.yml'']
      \<and> entries (Hosts ?v) ''web2'' = None
      \<and> (\<forall>q\<in>set []. \<forall>cq. loadConf 1 sample_env q = Inr cq \<longrightarrow> entries (Hosts cq) ''web2'' = None)
      \<and> loadConf 1 sample_env ''~/inc1.yml'' = Inr ?c1
      \<and> entries (Hosts ?c1) ''web2'' = Some rec_bastion"
    using sample_inc1 by simp
  with inc have web2: "entries (Hosts c) ''web2'' = Some rec_bastion" by blast
  from load have "loadConf 2 sample_env ''~/.mssh'' = Inr c"
    by (simp only: numeral_2_eq_2 One_nat_def)
  with db1 web2 show ?thesis by blast
qed

text \<open>
  Claim C5 fails on the program. \<^verbatim>\<open>loadConf\<close> makes a map for the document's hosts so
  that \<^verbatim>\<open>merge\<close> can write the includes' hosts into it, but a document whose \<^verbatim>\<open>hosts\<close>
  key has a null value is decoded into a nil map. With such a document and two includes
  that both load and both declare \<^verbatim>\<open>web2\<close>, the first \<^verbatim>\<open>merge\<close> panics on its write:
  the load returns nothing, where the claim keeps the first include's record, and the
  run ends in the panic.
\<close>

theorem nil_hosts_merge_panics:
  "Files sample_env ''/home/u/null.yml''
     = Some (\<lparr>Hosts = NilMap, Includes = [''~/inc1.yml'', ''/etc/mssh/inc2.yml'']\<rparr>, None)
   \<and> loadConf 1 sample_env ''~/inc1.yml''
     = Inr \<lparr>Hosts = GoMap [''db1'' \<mapsto> rec_plain, ''web2'' \<mapsto> rec_bastion], Includes = []\<rparr>
   \<and> loadConf 1 sample_env ''/etc/mssh/inc2.yml''
     = Inr \<lparr>Hosts = GoMap [''web2'' \<mapsto> rec_plain, ''_tpl'' \<mapsto> rec_mosh], Includes = []\<rparr>
   \<and> loadConf 2 sample_env ''~/null.yml'' = Inl (Panic AssignToNilMap)
   \<and> main rx_sample sample_env 2 (sample_opts\<lparr>ConfigFile := ''~/null.yml''\<rparr>) []
     = ([], Crashed AssignToNilMap)"
proof -
  have f: "Files sample_env ''/home/u/null.yml''
     = Some (\<lparr>Hosts = NilMap, Includes = [''~/inc1.yml'', ''/etc/mssh/inc2.yml'']\<rparr>, None)"
    by (simp add: sample_env_def sample_files_def)
  have l: "loadConf 2 sample_env ''~/null.yml'' = Inl (Panic AssignToNilMap)"
    by (simp add: numeral_2_eq_2 expandHomeDir_def sample_env_def sample_files_def HasPrefix_def
        merge_def sample_keys_def)
  then have r: "main rx_sample sample_env 2 (sample_opts\<lparr>ConfigFile := ''~/null.yml''\<rparr>) []
     = ([], Crashed AssignToNilMap)"
    by (simp add: main_def sample_opts_def)
  from f sample_inc1 sample_inc2 l r show ?thesis by blast
qed

subsection \<open>Commands\<close>

lemma Split_from_not_Nil: "Split_from sep piece s \<noteq> []"
  by (induction s arbitrary: piece) auto

lemma Join_Cons: "ys \<noteq> [] \<Longrightarrow> Join (x # ys) sep = x @ sep @ Join ys sep"
  by (cases ys) simp_all

lemma Join_Split_from: "Join (Split_from [d] piece s) [d] = piece @ s"
proof (induction s arbitrary: piece)
  case Nil
  then show ?case by simp
next
  case (Cons c cs)
  show ?case
  proof (cases "c = d")
    case True
    then have "Split_from [d] piece (c # cs) = piece # Split_from [d] [] cs"
      by (simp add: HasPrefix_def)
    then show ?thesis
      using Cons.IH [of "[]"] True by (simp add: Join_Cons Split_from_not_Nil)
  next
    case False
    then have "Split_from [d] piece (c # cs) = Split_from [d] (piece @ [c]) cs"
      by (auto simp: HasPrefix_def)
    then show ?thesis using Cons.IH [of "piece @ [c]"] by simp
  qed
qed

lemma Split_from_pieces:
  "d \<notin> set piece \<Longrightarrow> \<forall>p\<in>set (Split_from [d] piece s). d \<notin> set p"
proof (induction s arbitrary: piece)
  case Nil
  then show ?case by simp
next
  case (Cons c cs)
  show ?case
  proof (cases "c = d")
    case True
    then have "Split_from [d] piece (c # cs) = piece # Split_from [d] [] cs"
      by (simp add: HasPrefix_def)
    then show ?thesis using Cons.IH [of "[]"] Cons.prems by simp
  next
    case False
    then have "Split_from [d] piece (c # cs) = Split_from [d] (piece @ [c]) cs"
      by (auto simp: HasPrefix_def)
    moreover have "d \<notin> set (piece @ [c])" using False Cons.prems by auto
    ultimately show ?thesis using Cons.IH [of "piece @ [c]"] by simp
  qed
qed

text \<open>
  Claim C6, as amended. For a record with an empty \<open>Via\<close> the command is the base
  invocation followed by the address: the address is \<open>Hostname\<close> if not empty and the
  host name otherwise; the base invocation is \<^verbatim>\<open>ssh -t\<close> when \<open>GatewayCommand\<close> is
  empty and otherwise \<open>GatewayCommand\<close> cut at every single space character: no piece
  holds a space and the pieces joined with one space give \<open>GatewayCommand\<close> back (so two
  spaces in a row give an empty piece, and a tab does not cut). A record with all fields
  empty gives \<^verbatim>\<open>ssh -t\<close> and the host name.
\<close>

theorem getSSHCmdline_direct:
  assumes r: "entries (Hosts c) name = Some r" and direct: "Via r = []"
  shows "getSSHCmdline name c
           = (if GatewayCommand r \<noteq> [] then Split (GatewayCommand r) '' '' else [''ssh'', ''-t''])
             @ [if Hostname r \<noteq> [] then Hostname r else name]
         \<and> Join (Split (GatewayCommand r) '' '') '' '' = GatewayCommand r
         \<and> (\<forall>p\<in>set (Split (GatewayCommand r) '' ''). CHR '' '' \<notin> set p)
         \<and> (Hostname r = [] \<and> GatewayCommand r = [] \<longrightarrow> getSSHCmdline name c = [''ssh'', ''-t'', name])"
proof (intro conjI impI)
  show eq: "getSSHCmdline name c
      = (if GatewayCommand r \<noteq> [] then Split (GatewayCommand r) '' '' else [''ssh'', ''-t''])
        @ [if Hostname r \<noteq> [] then Hostname r else name]"
    using r direct by (simp add: getSSHCmdline_def Let_def)
  show "Join (Split (GatewayCommand r) '' '') '' '' = GatewayCommand r"
    using Join_Split_from [of "CHR '' ''" "[]"] by (simp add: Split_def)
  show "\<forall>p\<in>set (Split (GatewayCommand r) '' ''). CHR '' '' \<notin> set p"
    using Split_from_pieces [of "CHR '' ''" "[]"] by (simp add: Split_def)
  assume "Hostname r = [] \<and> GatewayCommand r = []"
  with eq show "getSSHCmdline name c = [''ssh'', ''-t'', name]" by simp
qed

theorem getSSHCmdline_direct_witness:
  "getSSHCmdline ''h'' \<lparr>Hosts = GoMap [''h'' \<mapsto> rec_plain], Includes = []\<rparr> = [''ssh'', ''-t'', ''h'']
   \<and> getSSHCmdline ''h'' \<lparr>Hosts = GoMap [''h'' \<mapsto> rec_mosh], Includes = []\<rparr> = [''mosh'', ''10.0.0.1'']
   \<and> Join (Split ''mosh'' '' '') '' '' = ''mosh''"
proof -
  have p: "entries (Hosts \<lparr>Hosts = GoMap [''h'' \<mapsto> rec_plain], Includes = []\<rparr>) ''h'' = Some rec_plain"
    and pv: "Via rec_plain = []" by (simp_all add: rec_plain_def)
  have m: "entries (Hosts \<lparr>Hosts = GoMap [''h'' \<mapsto> rec_mosh], Includes = []\<rparr>) ''h'' = Some rec_mosh"
    and mv: "Via rec_mosh = []" by (simp_all add: rec_mosh_def)
  have s: "Split ''mosh'' '' '' = [''mosh'']" by (simp add: Split_def HasPrefix_def)
  from getSSHCmdline_direct [OF p pv]
  have 1: "getSSHCmdline ''h'' \<lparr>Hosts = GoMap [''h'' \<mapsto> rec_plain], Includes = []\<rparr> = [''ssh'', ''-t'', ''h'']"
    by (simp add: rec_plain_def)
  from getSSHCmdline_direct [OF m mv] s
  have 2: "getSSHCmdline ''h'' \<lparr>Hosts = GoMap [''h'' \<mapsto> rec_mosh], Includes = []\<rparr> = [''mosh'', ''10.0.0.1'']"
    and 3: "Join (Split ''mosh'' '' '') '' '' = ''mosh''"
    by (simp_all add: rec_mosh_def)
  from 1 2 3 show ?thesis by blast
qed

text \<open>
  Claim C6 as stated fails: a \<open>GatewayCommand\<close> with a tab between its two words is not
  split there, while splitting it on whitespace gives two tokens.
\<close>

theorem getSSHCmdline_tab_not_split:
  "getSSHCmdline ''h'' \<lparr>Hosts = GoMap [''h'' \<mapsto> rec_tab], Includes = []\<rparr>
     = [''ssh'' @ [CHR 0x09] @ ''-A'', ''h'']
   \<and> spec_split_whitespace (GatewayCommand rec_tab) @ [''h''] = [''ssh'', ''-A'', ''h'']"
  by (simp add: getSSHCmdline_def rec_tab_def Split_def HasPrefix_def
      spec_split_whitespace_def spec_is_space_def)

text \<open>
  Claim C7. For a record with a non-empty \<open>Via\<close> the command is \<^verbatim>\<open>ssh\<close>, \<^verbatim>\<open>-t\<close>,
  \<open>Via\<close>, and one argument made of \<open>GatewayCommand\<close>, a space and the address; with an
  empty \<open>GatewayCommand\<close> that argument is a space followed by the address.
\<close>

theorem getSSHCmdline_via:
  assumes r: "entries (Hosts c) name = Some r" and via: "Via r \<noteq> []"
  shows "getSSHCmdline name c
           = [''ssh'', ''-t'', Via r,
              GatewayCommand r @ '' '' @ (if Hostname r \<noteq> [] then Hostname r else name)]
         \<and> (GatewayCommand r = [] \<longrightarrow>
              getSSHCmdline name c
                = [''ssh'', ''-t'', Via r, CHR '' '' # (if Hostname r \<noteq> [] then Hostname r else name)])"
  using r via by (simp add: getSSHCmdline_def Let_def)

theorem getSSHCmdline_via_witness:
  "getSSHCmdline ''h'' \<lparr>Hosts = GoMap [''h'' \<mapsto> rec_bastion], Includes = []\<rparr>
     = [''ssh'', ''-t'', ''bastion'', ''sshpass -f x ssh h'']
   \<and> getSSHCmdline ''h'' \<lparr>Hosts = GoMap [''h'' \<mapsto> rec_via_only], Includes = []\<rparr>
     = [''ssh'', ''-t'', ''bastion'', '' h'']"
proof -
  have b: "entries (Hosts \<lparr>Hosts = GoMap [''h'' \<mapsto> rec_bastion], Includes = []\<rparr>) ''h'' = Some rec_bastion"
    and bv: "Via rec_bastion \<noteq> []" by (simp_all add: rec_bastion_def)
  have o: "entries (Hosts \<lparr>Hosts = GoMap [''h'' \<mapsto> rec_via_only], Includes = []\<rparr>) ''h'' = Some rec_via_only"
    and ov: "Via rec_via_only \<noteq> []" by (simp_all add: rec_via_only_def)
  from getSSHCmdline_via [OF b bv]
  have 1: "getSSHCmdline ''h'' \<lparr>Hosts = GoMap [''h'' \<mapsto> rec_bastion], Includes = []\<rparr>
     = [''ssh'', ''-t'', ''bastion'', ''sshpass -f x ssh h'']"
    by (simp add: rec_bastion_def)
  from getSSHCmdline_via [OF o ov]
  have 2: "getSSHCmdline ''h'' \<lparr>Hosts = GoMap [''h'' \<mapsto> rec_via_only], Includes = []\<rparr>
     = [''ssh'', ''-t'', ''bastion'', '' h'']"
    by (simp add: rec_via_only_def)
  from 1 2 show ?thesis by blast
qed

subsection \<open>Guards\<close>

lemma askyn_iff:
  "askyn stdin \<longleftrightarrow> (\<exists>rest. stdin = CHR ''y'' # rest \<or> stdin = CHR ''Y'' # rest)"
  by (cases stdin) (auto simp: askyn_def)

text \<open>
  Claim C8, as amended. After the listing: in a dry run \<^verbatim>\<open>main\<close> returns, whatever the
  number of targets. Otherwise, more than one target without multiplexer mode is fatal,
  with nothing read, built or launched. Otherwise (multiplexer mode), more than two
  targets without auto-confirm make the run prompt and read one byte; unless that byte
  is \<^verbatim>\<open>y\<close> or \<^verbatim>\<open>Y\<close> (a failed read included) the run is fatal with nothing built or
  launched, and if it is, the launches follow.
\<close>

theorem main_tail_guards:
  "(Dryrun os \<longrightarrow>
      main_tail os c hosts stdin = (map (\<lambda>v. Stdout (v @ [CHR 0x0A])) hosts, Returned))
   \<and> (\<not> Dryrun os \<and> \<not> UseTMUX os \<and> 1 < length hosts \<longrightarrow>
      main_tail os c hosts stdin
        = (map (\<lambda>v. Stdout (v @ [CHR 0x0A])) hosts,
           Fatal ''Can't open multipe hosts. please use tmux mode.''))
   \<and> (\<not> Dryrun os \<and> UseTMUX os \<and> 2 < length hosts \<and> \<not> Yes os
       \<and> \<not> (\<exists>rest. stdin = CHR ''y'' # rest \<or> stdin = CHR ''Y'' # rest) \<longrightarrow>
      main_tail os c hosts stdin
        = (map (\<lambda>v. Stdout (v @ [CHR 0x0A])) hosts
             @ [Stdout (''Too many hosts selected'' @ [CHR 0x0A] @ ''Input `y` to continue: ''),
                StdinRead],
           Fatal ''Interrupted''))
   \<and> (\<not> Dryrun os \<and> UseTMUX os \<and> 2 < length hosts \<and> \<not> Yes os
       \<and> (\<exists>rest. stdin = CHR ''y'' # rest \<or> stdin = CHR ''Y'' # rest) \<longrightarrow>
      main_tail os c hosts stdin
        = (map (\<lambda>v. Stdout (v @ [CHR 0x0A])) hosts
             @ [Stdout (''Too many hosts selected'' @ [CHR 0x0A] @ ''Input `y` to continue: ''),
                StdinRead]
             @ fst (main_launch os c hosts),
           snd (main_launch os c hosts)))"
  unfolding askyn_iff [symmetric]
  by (simp add: main_tail_def Let_def split: prod.splits)

theorem main_tail_guards_witness:
  "main_tail (sample_opts\<lparr>Dryrun := True\<rparr>) \<lparr>Hosts = GoMap Map.empty, Includes = []\<rparr> [''a'', ''b'', ''c''] []
     = ([Stdout (''a'' @ [CHR 0x0A]), Stdout (''b'' @ [CHR 0x0A]), Stdout (''c'' @ [CHR 0x0A])], Returned)
   \<and> main_tail (sample_opts\<lparr>UseTMUX := False\<rparr>) \<lparr>Hosts = GoMap Map.empty, Includes = []\<rparr> [''a'', ''b''] ''y''
     = ([Stdout (''a'' @ [CHR 0x0A]), Stdout (''b'' @ [CHR 0x0A])],
        Fatal ''Can't open multipe hosts. please use tmux mode.'')
   \<and> main_tail sample_opts \<lparr>Hosts = GoMap Map.empty, Includes = []\<rparr> [''a'', ''b'', ''c''] ''n''
     = ([Stdout (''a'' @ [CHR 0x0A]), Stdout (''b'' @ [CHR 0x0A]), Stdout (''c'' @ [CHR 0x0A]),
         Stdout (''Too many hosts selected'' @ [CHR 0x0A] @ ''Input `y` to continue: ''), StdinRead],
        Fatal ''Interrupted'')"
proof -
  let ?c = "\<lparr>Hosts = GoMap Map.empty, Includes = []\<rparr>"
  note t = main_tail_guards
  have 1: "Dryrun (sample_opts\<lparr>Dryrun := True\<rparr>)" by simp
  have 2: "\<not> Dryrun (sample_opts\<lparr>UseTMUX := False\<rparr>) \<and> \<not> UseTMUX (sample_opts\<lparr>UseTMUX := False\<rparr>)
      \<and> 1 < length [''a'', ''b'']"
    by (simp add: sample_opts_def)
  have 3: "\<not> Dryrun sample_opts \<and> UseTMUX sample_opts \<and> 2 < length [''a'', ''b'', ''c'']
      \<and> \<not> Yes sample_opts \<and> \<not> (\<exists>rest. ''n'' = CHR ''y'' # rest \<or> ''n'' = CHR ''Y'' # rest)"
    by (simp add: sample_opts_def)
  from t [of "sample_opts\<lparr>Dryrun := True\<rparr>" ?c "[''a'', ''b'', ''c'']" "[]"] 1
  have a: "main_tail (sample_opts\<lparr>Dryrun := True\<rparr>) ?c [''a'', ''b'', ''c''] []
     = ([Stdout (''a'' @ [CHR 0x0A]), Stdout (''b'' @ [CHR 0x0A]), Stdout (''c'' @ [CHR 0x0A])], Returned)"
    by simp
  from t [of "sample_opts\<lparr>UseTMUX := False\<rparr>" ?c "[''a'', ''b'']" "''y''"] 2
  have b: "main_tail (sample_opts\<lparr>UseTMUX := False\<rparr>) ?c [''a'', ''b''] ''y''
     = ([Stdout (''a'' @ [CHR 0x0A]), Stdout (''b'' @ [CHR 0x0A])],
        Fatal ''Can't open multipe hosts. please use tmux mode.'')"
    by simp
  from t [of sample_opts ?c "[''a'', ''b'', ''c'']" "''n''"] 3
  have c: "main_tail sample_opts ?c [''a'', ''b'', ''c''] ''n''
     = ([Stdout (''a'' @ [CHR 0x0A]), Stdout (''b'' @ [CHR 0x0A]), Stdout (''c'' @ [CHR 0x0A]),
         Stdout (''Too many hosts selected'' @ [CHR 0x0A] @ ''Input `y` to continue: ''), StdinRead],
        Fatal ''Interrupted'')"
    by simp
  from a b c show ?thesis by blast
qed

text \<open>
  Claim C8 as stated fails: a dry run with two targets and no multiplexer mode returns
  normally, and three targets with neither multiplexer mode nor auto-confirm end the
  run before any byte is read.
\<close>

theorem dry_run_skips_guards:
  "main_tail (sample_opts\<lparr>Dryrun := True, UseTMUX := False\<rparr>) \<lparr>Hosts = GoMap Map.empty, Includes = []\<rparr>
     [''web1'', ''web2''] []
     = ([Stdout (''web1'' @ [CHR 0x0A]), Stdout (''web2'' @ [CHR 0x0A])], Returned)
   \<and> main_tail (sample_opts\<lparr>UseTMUX := False\<rparr>) \<lparr>Hosts = GoMap Map.empty, Includes = []\<rparr>
     [''db1'', ''web1'', ''web2''] ''y''
     = ([Stdout (''db1'' @ [CHR 0x0A]), Stdout (''web1'' @ [CHR 0x0A]), Stdout (''web2'' @ [CHR 0x0A])],
        Fatal ''Can't open multipe hosts. please use tmux mode.'')"
  by (simp add: main_tail_def sample_opts_def)

subsection \<open>Home directory\<close>

lemma Replace1_prefix: "HasPrefix s old \<Longrightarrow> s \<noteq> [] \<Longrightarrow> Replace1 s old new = new @ drop (length old) s"
  by (cases s) simp_all

text \<open>
  Claim C10, as amended. When the lookup of the current user succeeds: a path shorter
  than two bytes makes \<^verbatim>\<open>expandHomeDir\<close>, and \<^verbatim>\<open>loadConf\<close> with it, panic on the slice
  (no error is returned); a path of two bytes or more is returned, with a leading
  \<^verbatim>\<open>~/\<close> replaced by the home directory and a slash, and unchanged when it does not
  start with \<^verbatim>\<open>~/\<close>. When the lookup fails, every path makes them panic on the nil user.
\<close>

theorem expandHomeDir_cases:
  "(CurrentUser e = Some home \<and> length path < 2 \<longrightarrow>
      expandHomeDir e path = Inl (Panic SliceOutOfRange)
      \<and> loadConf (Suc n) e path = Inl (Panic SliceOutOfRange))
   \<and> (CurrentUser e = Some home \<and> 2 \<le> length path \<longrightarrow>
      expandHomeDir e path
        = Inr (if take 2 path = ''~/'' then home @ ''/'' @ drop 2 path else path))
   \<and> (CurrentUser e = None \<longrightarrow>
      expandHomeDir e path = Inl (Panic NilDereference)
      \<and> loadConf (Suc n) e path = Inl (Panic NilDereference))"
proof (intro conjI impI)
  assume a: "CurrentUser e = Some home \<and> length path < 2"
  then show x: "expandHomeDir e path = Inl (Panic SliceOutOfRange)"
    by (simp add: expandHomeDir_def)
  then show "loadConf (Suc n) e path = Inl (Panic SliceOutOfRange)" by simp
next
  assume a: "CurrentUser e = Some home \<and> 2 \<le> length path"
  show "expandHomeDir e path
        = Inr (if take 2 path = ''~/'' then home @ ''/'' @ drop 2 path else path)"
  proof (cases "take 2 path = ''~/''")
    case True
    then have "HasPrefix path ''~/''" and "path \<noteq> []"
      by (auto simp: HasPrefix_def numeral_2_eq_2)
    then have "Replace1 path ''~/'' (home @ ''/'') = (home @ ''/'') @ drop 2 path"
      using Replace1_prefix [of path "''~/''"] by (simp add: numeral_2_eq_2)
    with a True show ?thesis by (simp add: expandHomeDir_def)
  next
    case False
    with a show ?thesis by (simp add: expandHomeDir_def)
  qed
next
  assume a: "CurrentUser e = None"
  then show x: "expandHomeDir e path = Inl (Panic NilDereference)"
    by (simp add: expandHomeDir_def)
  then show "loadConf (Suc n) e path = Inl (Panic NilDereference)" by simp
qed

theorem expandHomeDir_cases_witness:
  "expandHomeDir sample_env [] = Inl (Panic SliceOutOfRange)
   \<and> loadConf 1 sample_env [] = Inl (Panic SliceOutOfRange)
   \<and> expandHomeDir sample_env ''~'' = Inl (Panic SliceOutOfRange)
   \<and> expandHomeDir sample_env ''~/.mssh'' = Inr ''/home/u/.mssh''
   \<and> expandHomeDir sample_env ''/etc/~/x'' = Inr ''/etc/~/x''
   \<and> expandHomeDir no_user_env ''/etc/~/x'' = Inl (Panic NilDereference)"
proof -
  note t = expandHomeDir_cases
  have u: "CurrentUser sample_env = Some ''/home/u''" by (simp add: sample_env_def)
  have n: "CurrentUser no_user_env = None" by (simp add: no_user_env_def)
  from t [of sample_env "''/home/u''" "[]" 0] u
  have 1: "expandHomeDir sample_env [] = Inl (Panic SliceOutOfRange)"
    and 2: "loadConf 1 sample_env [] = Inl (Panic SliceOutOfRange)" by simp_all
  from t [of sample_env "''/home/u''" "''~''" 0] u
  have 3: "expandHomeDir sample_env ''~'' = Inl (Panic SliceOutOfRange)" by simp
  from t [of sample_env "''/home/u''" "''~/.mssh''" 0] u
  have 4: "expandHomeDir sample_env ''~/.mssh'' = Inr ''/home/u/.mssh''" by simp
  from t [of sample_env "''/home/u''" "''/etc/~/x''" 0] u
  have 5: "expandHomeDir sample_env ''/etc/~/x'' = Inr ''/etc/~/x''" by simp
  from t [of no_user_env _ "''/etc/~/x''" 0] n
  have 6: "expandHomeDir no_user_env ''/etc/~/x'' = Inl (Panic NilDereference)" by simp
  from 1 2 3 4 5 6 show ?thesis by blast
qed

text \<open>
  Claim C10 as stated fails: without a current user, expansion panics on a path of
  seven bytes.
\<close>

theorem expandHomeDir_without_user:
  "expandHomeDir no_user_env ''~/.mssh'' = Inl (Panic NilDereference) \<and> 2 \<le> length ''~/.mssh''"
  by (simp add: expandHomeDir_def no_user_env_def)

end
